theory Spec2Isabelle
  imports Main
begin

section \<open>The CSS selector builder of 05-objects-tasks.js\<close>

text \<open>
  The builder is one JavaScript object, \<^verbatim>\<open>cssSelectorBuilder\<close>, whose methods read and
  write the properties \<^verbatim>\<open>tag\<close>, \<^verbatim>\<open>myId\<close>, \<^verbatim>\<open>classes\<close>, \<^verbatim>\<open>attribute\<close>,
  \<^verbatim>\<open>pseudoClasses\<close>, \<^verbatim>\<open>pseudoElem\<close> and \<^verbatim>\<open>combination\<close> of \<^verbatim>\<open>this\<close>. A selector is
  either that object itself or an object created by \<^verbatim>\<open>{}\<close> whose prototype was set to it.
  Two things of JavaScript decide what the methods do and are therefore modelled:
  \<^item> a property read goes to the object's own property when it has one (also when that
    property holds \<^verbatim>\<open>undefined\<close>) and to the prototype otherwise;
  \<^item> an assignment \<^verbatim>\<open>this.p = v\<close> always creates or overwrites an own property, and
    \<^verbatim>\<open>this.p.push(v)\<close> changes the array that the read of \<^verbatim>\<open>this.p\<close> found, which may
    belong to the prototype.
  Objects live in a store indexed by addresses; every method takes the store and the
  address of \<^verbatim>\<open>this\<close> and returns the store it leaves behind, also when it throws.
\<close>

subsection \<open>Objects and the store\<close>

text \<open>
  An own property is absent, holds \<^verbatim>\<open>undefined\<close>, or holds a value. Values passed to the
  fragment methods are strings; the two list properties hold arrays of strings.
\<close>

datatype 'a slot = Absent | Undef | Val 'a

record obj =
  tag :: "string slot"
  myId :: "string slot"
  classes :: "string list slot"
  attribute :: "string slot"
  pseudoClasses :: "string list slot"
  pseudoElem :: "string slot"
  combination :: "string slot"

text \<open>The object literal \<^verbatim>\<open>{}\<close>: no own property.\<close>

definition empty_obj :: obj where
  "empty_obj = \<lparr>tag = Absent, myId = Absent, classes = Absent, attribute = Absent,
                pseudoClasses = Absent, pseudoElem = Absent, combination = Absent\<rparr>"

type_synonym addr = nat

text \<open>
  The store: the object at each address and the number of objects that \<^verbatim>\<open>{}\<close> has
  created so far. The builder is at address 0 and the \<open>k\<close>-th created object at address
  \<open>k\<close>; an address beyond \<open>created\<close> is not in use yet.
\<close>

record heap =
  objs :: "addr \<Rightarrow> obj"
  created :: nat

text \<open>\<^verbatim>\<open>cssSelectorBuilder\<close> itself: the prototype of every other selector object.\<close>

definition builder :: addr where
  "builder = 0"

text \<open>The store when the module has been loaded: only the builder, without state.\<close>

definition init_heap :: heap where
  "init_heap = \<lparr>objs = (\<lambda>_. empty_obj), created = 0\<rparr>"

text \<open>
  \<^verbatim>\<open>let obj = {}; Object.setPrototypeOf(obj, cssSelectorBuilder)\<close>: a new object at the
  next address, which is never the builder's.
\<close>

definition alloc :: "heap \<Rightarrow> heap \<times> addr" where
  "alloc h =
     (h\<lparr>objs := (objs h)(Suc (created h) := empty_obj), created := Suc (created h)\<rparr>,
      Suc (created h))"

text \<open>
  Reading \<^verbatim>\<open>this.p\<close>: the own property if there is one, the builder's otherwise; the
  builder's own prototype has none of the seven properties. \<open>None\<close> is \<^verbatim>\<open>undefined\<close>.
\<close>

definition get :: "(obj \<Rightarrow> 'a slot) \<Rightarrow> heap \<Rightarrow> addr \<Rightarrow> 'a option" where
  "get p h this =
     (case p (objs h this) of
        Val v \<Rightarrow> Some v
      | Undef \<Rightarrow> None
      | Absent \<Rightarrow>
          (if this = builder then None
           else (case p (objs h builder) of Val v \<Rightarrow> Some v | Undef \<Rightarrow> None | Absent \<Rightarrow> None)))"

text \<open>Writing own properties of the object at an address.\<close>

definition upd :: "heap \<Rightarrow> addr \<Rightarrow> (obj \<Rightarrow> obj) \<Rightarrow> heap" where
  "upd h this g = h\<lparr>objs := (objs h)(this := g (objs h this))\<rparr>"

text \<open>
  \<^verbatim>\<open>this.p.push(v)\<close>: the array is the one the read of \<^verbatim>\<open>this.p\<close> finds, so it is the
  builder's when the object has no own property \<^verbatim>\<open>p\<close>. On \<^verbatim>\<open>undefined\<close> the call is a
  TypeError (\<open>None\<close>).
\<close>

definition push ::
  "(obj \<Rightarrow> string list slot) \<Rightarrow> (string list slot \<Rightarrow> obj \<Rightarrow> obj) \<Rightarrow> heap \<Rightarrow> addr \<Rightarrow> string
     \<Rightarrow> heap option" where
  "push p set_p h this v =
     (case p (objs h this) of
        Val xs \<Rightarrow> Some (upd h this (set_p (Val (xs @ [v]))))
      | Undef \<Rightarrow> None
      | Absent \<Rightarrow>
          (if this = builder then None
           else (case p (objs h builder) of
                   Val xs \<Rightarrow> Some (upd h builder (set_p (Val (xs @ [v]))))
                 | Undef \<Rightarrow> None
                 | Absent \<Rightarrow> None)))"

text \<open>
  Truthiness of what a string property reads: \<^verbatim>\<open>undefined\<close> and the empty string are
  falsy, every other string is truthy. (An array is always truthy, so for the two array
  properties a test \<^verbatim>\<open>if (this.p)\<close> is a test against \<open>None\<close>.)
\<close>

fun truthy_str :: "string option \<Rightarrow> bool" where
  "truthy_str None = False"
| "truthy_str (Some s) = (s \<noteq> [])"

subsection \<open>Errors\<close>

text \<open>
  The two messages of the source's \<^verbatim>\<open>throw new Error(...)\<close>: "Element, id and
  pseudo-element should not occur more then one time inside the selector"
  (\<open>DuplicateFragment\<close>) and "Selector parts should be arranged in the following order:
  element, id, class, attribute, pseudo-class, pseudo-element" (\<open>OrderViolation\<close>);
  \<open>TypeError\<close> is what calling \<^verbatim>\<open>push\<close> on \<^verbatim>\<open>undefined\<close> would throw.
\<close>

datatype error = DuplicateFragment | OrderViolation | TypeError

subsection \<open>The fragment methods\<close>

text \<open>
  The methods in the order of the source (lines 120 to 194). \<^verbatim>\<open>id\<close> and \<^verbatim>\<open>class\<close>
  are \<open>id_m\<close> and \<open>class_m\<close> here, since \<open>id\<close> is a constant and \<open>class\<close> a
  keyword of Isabelle. Each returns the store and either the error thrown or the object
  returned.

  \<^verbatim>\<open>element(value)\<close> throws the duplicate error if \<^verbatim>\<open>this.tag\<close> is truthy; creates
  an object; throws the order error if \<^verbatim>\<open>this.myId\<close> is truthy; sets \<^verbatim>\<open>tag\<close> of the
  new object and returns it.
\<close>

definition element :: "heap \<Rightarrow> addr \<Rightarrow> string \<Rightarrow> heap \<times> (error + addr)" where
  "element h this v =
     (if truthy_str (get tag h this) then (h, Inl DuplicateFragment)
      else
        (let (h1, ob) = alloc h in
         if truthy_str (get myId h1 this) then (h1, Inl OrderViolation)
         else (upd h1 ob (\<lambda>s. s\<lparr>tag := Val v\<rparr>), Inr ob)))"

text \<open>
  \<^verbatim>\<open>id(value)\<close> throws the order error if \<^verbatim>\<open>this.pseudoElem !== undefined\<close>, the
  duplicate error if \<^verbatim>\<open>this.myId\<close> is truthy, the order error if \<^verbatim>\<open>this.classes\<close> or
  \<^verbatim>\<open>this.pseudoClasses\<close> is not \<^verbatim>\<open>undefined\<close>, in this order; creates an object; takes
  \<^verbatim>\<open>this\<close> instead if \<^verbatim>\<open>this.tag\<close> is truthy; sets \<^verbatim>\<open>myId\<close> and returns the
  object.
\<close>

definition id_m :: "heap \<Rightarrow> addr \<Rightarrow> string \<Rightarrow> heap \<times> (error + addr)" where
  "id_m h this v =
     (if get pseudoElem h this \<noteq> None then (h, Inl OrderViolation)
      else if truthy_str (get myId h this) then (h, Inl DuplicateFragment)
      else if get classes h this \<noteq> None then (h, Inl OrderViolation)
      else if get pseudoClasses h this \<noteq> None then (h, Inl OrderViolation)
      else
        (let (h1, ob) = alloc h;
             ob = (if truthy_str (get tag h1 this) then this else ob)
         in (upd h1 ob (\<lambda>s. s\<lparr>myId := Val v\<rparr>), Inr ob)))"

text \<open>
  \<^verbatim>\<open>class(value)\<close> throws the order error if \<^verbatim>\<open>this.attribute\<close> is truthy; sets
  \<^verbatim>\<open>this.classes = []\<close> if it reads \<^verbatim>\<open>undefined\<close>; pushes the value; sets
  \<^verbatim>\<open>this.pseudoClasses = undefined\<close>; returns \<^verbatim>\<open>this\<close>.
\<close>

definition class_m :: "heap \<Rightarrow> addr \<Rightarrow> string \<Rightarrow> heap \<times> (error + addr)" where
  "class_m h this v =
     (if truthy_str (get attribute h this) then (h, Inl OrderViolation)
      else
        (let h1 = (if get classes h this = None then upd h this (\<lambda>s. s\<lparr>classes := Val []\<rparr>)
                   else h)
         in case push classes (\<lambda>x s. s\<lparr>classes := x\<rparr>) h1 this v of
              None \<Rightarrow> (h1, Inl TypeError)
            | Some h2 \<Rightarrow> (upd h2 this (\<lambda>s. s\<lparr>pseudoClasses := Undef\<rparr>), Inr this)))"

text \<open>
  \<^verbatim>\<open>attr(value)\<close> throws the order error if \<^verbatim>\<open>this.pseudoClasses\<close> is not
  \<^verbatim>\<open>undefined\<close>; sets \<^verbatim>\<open>this.attribute\<close> to the value in brackets and
  \<^verbatim>\<open>this.pseudoClasses\<close> and \<^verbatim>\<open>this.pseudoElem\<close> to \<^verbatim>\<open>undefined\<close>; returns
  \<^verbatim>\<open>this\<close>.
\<close>

definition attr :: "heap \<Rightarrow> addr \<Rightarrow> string \<Rightarrow> heap \<times> (error + addr)" where
  "attr h this v =
     (if get pseudoClasses h this \<noteq> None then (h, Inl OrderViolation)
      else
        (let h1 = upd h this (\<lambda>s. s\<lparr>attribute := Val (''['' @ v @ '']'')\<rparr>);
             h2 = upd h1 this (\<lambda>s. s\<lparr>pseudoClasses := Undef\<rparr>);
             h3 = upd h2 this (\<lambda>s. s\<lparr>pseudoElem := Undef\<rparr>)
         in (h3, Inr this)))"

text \<open>
  \<^verbatim>\<open>pseudoClass(value)\<close>: if \<^verbatim>\<open>this.pseudoElem\<close> is truthy, sets it to
  \<^verbatim>\<open>undefined\<close> and throws the order error; otherwise sets
  \<^verbatim>\<open>this.pseudoClasses = []\<close> if it reads \<^verbatim>\<open>undefined\<close>, pushes \<^verbatim>\<open>:\<close> and the
  value, and returns \<^verbatim>\<open>this\<close>.
\<close>

definition pseudoClass :: "heap \<Rightarrow> addr \<Rightarrow> string \<Rightarrow> heap \<times> (error + addr)" where
  "pseudoClass h this v =
     (if truthy_str (get pseudoElem h this)
      then (upd h this (\<lambda>s. s\<lparr>pseudoElem := Undef\<rparr>), Inl OrderViolation)
      else
        (let h1 = (if get pseudoClasses h this = None
                   then upd h this (\<lambda>s. s\<lparr>pseudoClasses := Val []\<rparr>) else h)
         in case push pseudoClasses (\<lambda>x s. s\<lparr>pseudoClasses := x\<rparr>) h1 this ('':'' @ v) of
              None \<Rightarrow> (h1, Inl TypeError)
            | Some h2 \<Rightarrow> (h2, Inr this)))"

text \<open>
  \<^verbatim>\<open>pseudoElement(value)\<close> throws the duplicate error if \<^verbatim>\<open>this.pseudoElem\<close> is
  truthy; otherwise sets it to \<^verbatim>\<open>::\<close> and the value and returns \<^verbatim>\<open>this\<close>.
\<close>

definition pseudoElement :: "heap \<Rightarrow> addr \<Rightarrow> string \<Rightarrow> heap \<times> (error + addr)" where
  "pseudoElement h this v =
     (if truthy_str (get pseudoElem h this) then (h, Inl DuplicateFragment)
      else (upd h this (\<lambda>s. s\<lparr>pseudoElem := Val (''::'' @ v)\<rparr>), Inr this))"

subsection \<open>Rendering and combining\<close>

text \<open>\<^verbatim>\<open>Array.prototype.join\<close> on an array of strings.\<close>

fun join :: "string \<Rightarrow> string list \<Rightarrow> string" where
  "join sep [] = []"
| "join sep [x] = x"
| "join sep (x # y # ys) = x @ sep @ join sep (y # ys)"

text \<open>
  \<^verbatim>\<open>stringify()\<close> (lines 208 to 240) appends to \<^verbatim>\<open>str\<close>, each under the test that the
  property is truthy: \<^verbatim>\<open>tag\<close>; \<^verbatim>\<open>#\<close> and \<^verbatim>\<open>myId\<close>; \<^verbatim>\<open>.\<close> and
  \<^verbatim>\<open>classes.join('.')\<close>; \<^verbatim>\<open>attribute\<close>; \<^verbatim>\<open>pseudoClasses.join('')\<close>;
  \<^verbatim>\<open>pseudoElem\<close>; \<^verbatim>\<open>combination\<close>. Then it assigns \<^verbatim>\<open>undefined\<close> to all seven
  properties of \<^verbatim>\<open>this\<close> (\<open>reset\<close>) and returns \<^verbatim>\<open>str\<close>.
\<close>

definition reset :: "obj \<Rightarrow> obj" where
  "reset o1 = o1\<lparr>tag := Undef, myId := Undef, classes := Undef, attribute := Undef,
                 pseudoClasses := Undef, pseudoElem := Undef, combination := Undef\<rparr>"

definition stringify :: "heap \<Rightarrow> addr \<Rightarrow> heap \<times> string" where
  "stringify h this =
     (let str0 = [];
          str1 = (case get tag h this of
                    Some t \<Rightarrow> if t \<noteq> [] then str0 @ t else str0 | None \<Rightarrow> str0);
          str2 = (case get myId h this of
                    Some i \<Rightarrow> if i \<noteq> [] then str1 @ ''#'' @ i else str1 | None \<Rightarrow> str1);
          str3 = (case get classes h this of
                    Some cs \<Rightarrow> str2 @ ''.'' @ join ''.'' cs | None \<Rightarrow> str2);
          str4 = (case get attribute h this of
                    Some a \<Rightarrow> if a \<noteq> [] then str3 @ a else str3 | None \<Rightarrow> str3);
          str5 = (case get pseudoClasses h this of
                    Some ps \<Rightarrow> str4 @ join [] ps | None \<Rightarrow> str4);
          str6 = (case get pseudoElem h this of
                    Some e \<Rightarrow> if e \<noteq> [] then str5 @ e else str5 | None \<Rightarrow> str5);
          str7 = (case get combination h this of
                    Some c \<Rightarrow> if c \<noteq> [] then str6 @ c else str6 | None \<Rightarrow> str6)
      in (upd h this reset, str7))"

text \<open>
  \<^verbatim>\<open>combine(selector1, combinator, selector2)\<close> (lines 196 to 206) calls
  \<^verbatim>\<open>stringify\<close> on the first and then on the second selector, creates an object and sets
  its \<^verbatim>\<open>combination\<close> to the two strings with the combinator between two spaces.
\<close>

definition combine :: "heap \<Rightarrow> addr \<Rightarrow> string \<Rightarrow> addr \<Rightarrow> heap \<times> (error + addr)" where
  "combine h selector1 combinator selector2 =
     (let (h1, str1) = stringify h selector1;
          (h2, str2) = stringify h1 selector2;
          (h3, ob) = alloc h2
      in (upd h3 ob (\<lambda>s. s\<lparr>combination := Val (str1 @ '' '' @ combinator @ '' '' @ str2)\<rparr>),
          Inr ob))"

subsection \<open>Chains of calls\<close>

text \<open>
  A call expression such as \<^verbatim>\<open>builder.id('main').class('container')\<close>: each method
  runs on the object the previous one returned, in the store it left behind, and a throw
  ends the chain.
\<close>

datatype fragment =
  Element string | Id_m string | Class string | Attr string
  | PseudoClass string | PseudoElement string

fun call :: "heap \<Rightarrow> addr \<Rightarrow> fragment \<Rightarrow> heap \<times> (error + addr)" where
  "call h this (Element v) = element h this v"
| "call h this (Id_m v) = id_m h this v"
| "call h this (Class v) = class_m h this v"
| "call h this (Attr v) = attr h this v"
| "call h this (PseudoClass v) = pseudoClass h this v"
| "call h this (PseudoElement v) = pseudoElement h this v"

fun chain :: "heap \<times> (error + addr) \<Rightarrow> fragment list \<Rightarrow> heap \<times> (error + addr)" where
  "chain (h, Inl e) fs = (h, Inl e)"
| "chain (h, Inr this) [] = (h, Inr this)"
| "chain (h, Inr this) (f # fs) = chain (call h this f) fs"

text \<open>\<^verbatim>\<open>.stringify()\<close> at the end of a chain.\<close>

fun rendered :: "heap \<times> (error + addr) \<Rightarrow> heap \<times> (error + string)" where
  "rendered (h, Inl e) = (h, Inl e)"
| "rendered (h, Inr this) = (fst (stringify h this), Inr (snd (stringify h this)))"

text \<open>
  \<^verbatim>\<open>builder.combine(builder.<chain>, combinator, builder.<chain>)\<close>: the arguments are
  evaluated from left to right before \<^verbatim>\<open>combine\<close> runs.
\<close>

definition combine_chains ::
  "heap \<Rightarrow> fragment list \<Rightarrow> string \<Rightarrow> fragment list \<Rightarrow> heap \<times> (error + addr)" where
  "combine_chains h fs1 combinator fs2 =
     (case chain (h, Inr builder) fs1 of
        (h1, Inl e) \<Rightarrow> (h1, Inl e)
      | (h1, Inr selector1) \<Rightarrow>
          (case chain (h1, Inr builder) fs2 of
             (h2, Inl e) \<Rightarrow> (h2, Inl e)
           | (h2, Inr selector2) \<Rightarrow> combine h2 selector1 combinator selector2))"

text \<open>
  The store after the statement \<^verbatim>\<open>builder.<chain>;\<close> has run, and \<open>made\<close>, the store
  after it has run in the store of the loaded module.
\<close>

definition run :: "heap \<Rightarrow> fragment list \<Rightarrow> heap" where
  "run h fs = fst (chain (h, Inr builder) fs)"

definition made :: "fragment list \<Rightarrow> heap" where
  "made fs = run init_heap fs"

subsection \<open>States of a selector\<close>

text \<open>Every fragment property of the object reads \<^verbatim>\<open>undefined\<close>.\<close>

definition cleared :: "heap \<Rightarrow> addr \<Rightarrow> bool" where
  "cleared h this \<longleftrightarrow>
     get tag h this = None \<and> get myId h this = None \<and> get classes h this = None \<and>
     get attribute h this = None \<and> get pseudoClasses h this = None \<and>
     get pseudoElem h this = None \<and> get combination h this = None"

text \<open>What the seven properties of an object read, in the order of the source.\<close>

type_synonym view =
  "string option \<times> string option \<times> string list option \<times> string option \<times>
   string list option \<times> string option \<times> string option"

definition view :: "heap \<Rightarrow> addr \<Rightarrow> view" where
  "view h this =
     (get tag h this, get myId h this, get classes h this, get attribute h this,
      get pseudoClasses h this, get pseudoElem h this, get combination h this)"

text \<open>
  The object inherits nothing from the builder: it is the builder, or the builder has no
  fragment of its own.
\<close>

definition owns :: "heap \<Rightarrow> addr \<Rightarrow> bool" where
  "owns h this \<longleftrightarrow> this = builder \<or> cleared h builder"

subsection \<open>The rendering in the words of the specification\<close>

text \<open>
  The fragments of a simple selector as the specification's data model has them: an
  optional element, an optional id, the classes, an optional attribute, the pseudo-classes
  and an optional pseudo-element. \<open>render_spec\<close> is the specification's rendering: the
  element, \<^verbatim>\<open>#\<close> and the id, each class after a \<^verbatim>\<open>.\<close>, the attribute in brackets, each
  pseudo-class after a \<^verbatim>\<open>:\<close>, and the pseudo-element after \<^verbatim>\<open>::\<close>. \<open>calls_of\<close> is
  the chain of calls that appends them in the grammar's order.
\<close>

fun optional :: "(string \<Rightarrow> 'a) \<Rightarrow> string option \<Rightarrow> 'a list" where
  "optional f None = []"
| "optional f (Some x) = [f x]"

definition render_spec ::
  "string option \<Rightarrow> string option \<Rightarrow> string list \<Rightarrow> string option \<Rightarrow> string list
     \<Rightarrow> string option \<Rightarrow> string" where
  "render_spec e i cs a ps pe =
     concat (optional (\<lambda>x. x) e) @
     concat (optional (\<lambda>x. ''#'' @ x) i) @
     concat (map (\<lambda>c. ''.'' @ c) cs) @
     concat (optional (\<lambda>x. ''['' @ x @ '']'') a) @
     concat (map (\<lambda>p. '':'' @ p) ps) @
     concat (optional (\<lambda>x. ''::'' @ x) pe)"

definition calls_of ::
  "string option \<Rightarrow> string option \<Rightarrow> string list \<Rightarrow> string option \<Rightarrow> string list
     \<Rightarrow> string option \<Rightarrow> fragment list" where
  "calls_of e i cs a ps pe =
     optional Element e @ optional Id_m i @ map Class cs @ optional Attr a @
     map PseudoClass ps @ optional PseudoElement pe"

section \<open>Properties of the store and of the methods\<close>

subsection \<open>The store\<close>

lemma created_upd [simp]: "created (upd h this g) = created h"
  by (simp add: upd_def)

lemma objs_upd [simp]:
  "objs (upd h this g) a = (if a = this then g (objs h this) else objs h a)"
  by (simp add: upd_def)

lemma fst_stringify: "fst (stringify h this) = upd h this reset"
  by (simp add: stringify_def Let_def)

lemma cleared_reset: "cleared (upd h this reset) this"
  by (simp add: cleared_def get_def reset_def)

lemma own_reset_cleared: "objs h this = reset s \<Longrightarrow> cleared h this"
  by (simp add: cleared_def get_def reset_def)

lemma stringify_cleared: "cleared h this \<Longrightarrow> snd (stringify h this) = []"
  by (simp add: cleared_def stringify_def Let_def)

lemma fst_combine:
  "fst (combine h selector1 combinator selector2) =
     upd (fst (alloc (upd (upd h selector1 reset) selector2 reset))) (Suc (created h))
       (\<lambda>s. s\<lparr>combination := Val (snd (stringify h selector1) @ '' '' @ combinator @ '' '' @
                 snd (stringify (upd h selector1 reset) selector2))\<rparr>)"
  by (simp add: combine_def Let_def case_prod_beta fst_stringify alloc_def)

lemmas store_defs =
  alloc_def upd_def get_def push_def init_heap_def builder_def empty_obj_def reset_def Let_def

lemmas method_defs =
  element_def id_m_def class_m_def attr_def pseudoClass_def pseudoElement_def
  stringify_def combine_def combine_chains_def run_def made_def

subsection \<open>Reading after writing\<close>

lemma stringify_view:
  assumes "view h this = (t, i, cs, at, ps, pe, co)"
  shows "snd (stringify h this) =
    (case t of Some x \<Rightarrow> x | None \<Rightarrow> []) @
    (case i of Some x \<Rightarrow> if x \<noteq> [] then ''#'' @ x else [] | None \<Rightarrow> []) @
    (case cs of Some xs \<Rightarrow> ''.'' @ join ''.'' xs | None \<Rightarrow> []) @
    (case at of Some x \<Rightarrow> x | None \<Rightarrow> []) @
    (case ps of Some xs \<Rightarrow> join [] xs | None \<Rightarrow> []) @
    (case pe of Some x \<Rightarrow> x | None \<Rightarrow> []) @
    (case co of Some x \<Rightarrow> x | None \<Rightarrow> [])"
  using assms by (auto simp add: view_def stringify_def Let_def split: option.splits)

lemma get_upd_unchanged:
  "(\<And>s. p (g s) = p s) \<Longrightarrow> get p (upd h a g) b = get p h b"
  by (auto simp add: get_def split: slot.splits)

lemma get_upd_Val:
  "(\<And>s. p (u (\<lambda>_. Val v) s) = Val v) \<Longrightarrow> get p (upd h a (u (\<lambda>_. Val v))) a = Some v"
  by (simp add: get_def)

lemma get_upd_Undef: "(\<And>s. p (g s) = Undef) \<Longrightarrow> get p (upd h a g) a = None"
  by (simp add: get_def)

lemma get_upd_diff: "a \<noteq> b \<Longrightarrow> a \<noteq> builder \<Longrightarrow> get p (upd h a g) b = get p h b"
  by (auto simp add: get_def split: slot.splits)

lemma get_alloc_old: "b \<le> created h \<Longrightarrow> get p (fst (alloc h)) b = get p h b"
  by (auto simp add: get_def alloc_def builder_def split: slot.splits)

lemma get_alloc_new:
  "b = Suc (created h) \<Longrightarrow> p empty_obj = Absent \<Longrightarrow>
     get p (fst (alloc h)) b = get p h builder"
  by (simp add: get_def alloc_def builder_def split: slot.splits)

lemma snd_alloc: "snd (alloc h) = Suc (created h)"
  by (simp add: alloc_def)

lemma created_alloc: "created (fst (alloc h)) = Suc (created h)"
  by (simp add: alloc_def)

lemma builder_le: "builder \<le> n" "Suc n \<noteq> builder" "builder \<noteq> Suc n"
  by (simp_all add: builder_def)

lemmas get_simps =
  get_upd_unchanged get_upd_Val get_upd_Undef get_upd_diff get_alloc_old get_alloc_new
  snd_alloc created_alloc builder_le empty_obj_def

subsection \<open>What each method does to what the selector reads\<close>

lemma element_view:
  assumes "cleared h builder"
  shows "\<exists>h'. element h builder v = (h', Inr (Suc (created h))) \<and> cleared h' builder \<and>
           created h' = Suc (created h) \<and>
           view h' (Suc (created h)) = (Some v, None, None, None, None, None, None)"
  using assms
  by (simp add: element_def cleared_def view_def case_prod_beta Let_def get_simps)

lemma id_m_view:
  assumes "cleared h builder" and "this \<le> created h"
    and "view h this = (t, None, None, None, None, None, None)"
  shows "\<exists>h' ob. id_m h this v = (h', Inr ob) \<and> cleared h' builder \<and> ob \<noteq> builder \<and>
           view h' ob = ((if truthy_str t then t else None), Some v, None, None, None, None, None)"
proof (cases "truthy_str t")
  case True
  with assms have "this \<noteq> builder"
    by (auto simp add: cleared_def view_def)
  with True assms show ?thesis
    by (simp add: id_m_def cleared_def view_def case_prod_beta Let_def get_simps)
next
  case False
  with assms show ?thesis
    by (simp add: id_m_def cleared_def view_def case_prod_beta Let_def get_simps)
qed


lemma own_prop:
  "a = builder \<or> get p h builder = None \<Longrightarrow> get p h a = Some x \<Longrightarrow> p (objs h a) = Val x"
  by (auto simp add: get_def split: slot.splits if_splits)

lemma push_own:
  "p (objs h a) = Val xs \<Longrightarrow> push p u h a v = Some (upd h a (u (Val (xs @ [v]))))"
  by (simp add: push_def)

lemma owns_upd: "owns h a \<Longrightarrow> owns (upd h a g) a"
  by (cases "a = builder") (simp_all add: owns_def cleared_def get_upd_diff)


lemma class_m_view:
  assumes "owns h a" and "view h a = (t, i, cs, None, ps, pe, co)"
  shows "\<exists>h'. class_m h a v = (h', Inr a) \<and> owns h' a \<and>
           view h' a = (t, i, Some ((case cs of None \<Rightarrow> [] | Some xs \<Rightarrow> xs) @ [v]), None, None, pe, co)"
proof (cases cs)
  case None
  let ?h1 = "upd h a (\<lambda>s. s\<lparr>classes := Val []\<rparr>)"
  have "push classes (\<lambda>x s. s\<lparr>classes := x\<rparr>) ?h1 a v =
          Some (upd ?h1 a (\<lambda>s. s\<lparr>classes := Val ([] @ [v])\<rparr>))"
    by (rule push_own) simp
  with None assms show ?thesis
    by (simp add: class_m_def view_def Let_def get_simps owns_upd)
next
  case (Some xs)
  with assms have "classes (objs h a) = Val xs"
    by (intro own_prop) (auto simp add: owns_def cleared_def view_def)
  then have "push classes (\<lambda>x s. s\<lparr>classes := x\<rparr>) h a v =
          Some (upd h a (\<lambda>s. s\<lparr>classes := Val (xs @ [v])\<rparr>))"
    by (rule push_own)
  with Some assms show ?thesis
    by (simp add: class_m_def view_def Let_def get_simps owns_upd)
qed

lemma attr_view:
  assumes "owns h a" and "view h a = (t, i, cs, at, None, pe, co)"
  shows "\<exists>h'. attr h a v = (h', Inr a) \<and> owns h' a \<and>
           view h' a = (t, i, cs, Some (''['' @ v @ '']''), None, None, co)"
  using assms by (simp add: attr_def view_def Let_def get_simps owns_upd)

lemma pseudoClass_view:
  assumes "owns h a" and "view h a = (t, i, cs, at, ps, None, co)"
  shows "\<exists>h'. pseudoClass h a v = (h', Inr a) \<and> owns h' a \<and>
           view h' a = (t, i, cs, at, Some ((case ps of None \<Rightarrow> [] | Some xs \<Rightarrow> xs) @ ['':'' @ v]), None, co)"
proof (cases ps)
  case None
  let ?h1 = "upd h a (\<lambda>s. s\<lparr>pseudoClasses := Val []\<rparr>)"
  have "push pseudoClasses (\<lambda>x s. s\<lparr>pseudoClasses := x\<rparr>) ?h1 a ('':'' @ v) =
          Some (upd ?h1 a (\<lambda>s. s\<lparr>pseudoClasses := Val ([] @ ['':'' @ v])\<rparr>))"
    by (rule push_own) simp
  with None assms show ?thesis
    by (simp add: pseudoClass_def view_def Let_def get_simps owns_upd)
next
  case (Some xs)
  with assms have "pseudoClasses (objs h a) = Val xs"
    by (intro own_prop) (auto simp add: owns_def cleared_def view_def)
  then have "push pseudoClasses (\<lambda>x s. s\<lparr>pseudoClasses := x\<rparr>) h a ('':'' @ v) =
          Some (upd h a (\<lambda>s. s\<lparr>pseudoClasses := Val (xs @ ['':'' @ v])\<rparr>))"
    by (rule push_own)
  with Some assms show ?thesis
    by (simp add: pseudoClass_def view_def Let_def get_simps owns_upd)
qed

lemma pseudoElement_view:
  assumes "owns h a" and "view h a = (t, i, cs, at, ps, None, co)"
  shows "\<exists>h'. pseudoElement h a v = (h', Inr a) \<and> owns h' a \<and>
           view h' a = (t, i, cs, at, ps, Some (''::'' @ v), co)"
  using assms by (simp add: pseudoElement_def view_def Let_def get_simps owns_upd)

subsection \<open>Chains in the order of the grammar\<close>

lemma chain_classes:
  assumes "owns h a" and "view h a = (t, i, cs0, None, None, pe, co)"
  shows "\<exists>h'. chain (h, Inr a) (map Class cs @ rest) = chain (h', Inr a) rest \<and> owns h' a \<and>
           view h' a =
             (t, i, (if cs = [] then cs0
                     else Some ((case cs0 of None \<Rightarrow> [] | Some xs \<Rightarrow> xs) @ cs)),
              None, None, pe, co)"
  using assms
proof (induction cs arbitrary: h cs0)
  case Nil
  then show ?case by auto
next
  case (Cons c cs)
  from class_m_view[OF Cons.prems, of c] obtain h1 where h1:
    "class_m h a c = (h1, Inr a)" "owns h1 a"
    "view h1 a = (t, i, Some ((case cs0 of None \<Rightarrow> [] | Some xs \<Rightarrow> xs) @ [c]), None, None, pe, co)"
    by blast
  from Cons.IH[OF h1(2,3)] h1(1) show ?case
    by auto
qed

lemma chain_pseudoClasses:
  assumes "owns h a" and "view h a = (t, i, cs, at, ps0, None, co)"
  shows "\<exists>h'. chain (h, Inr a) (map PseudoClass ps @ rest) = chain (h', Inr a) rest \<and>
           owns h' a \<and>
           view h' a =
             (t, i, cs, at,
              (if ps = [] then ps0
               else Some ((case ps0 of None \<Rightarrow> [] | Some xs \<Rightarrow> xs) @ map (\<lambda>p. '':'' @ p) ps)),
              None, co)"
  using assms
proof (induction ps arbitrary: h ps0)
  case Nil
  then show ?case by auto
next
  case (Cons p ps)
  from pseudoClass_view[OF Cons.prems, of p] obtain h1 where h1:
    "pseudoClass h a p = (h1, Inr a)" "owns h1 a"
    "view h1 a = (t, i, cs, at, Some ((case ps0 of None \<Rightarrow> [] | Some xs \<Rightarrow> xs) @ ['':'' @ p]), None, co)"
    by blast
  from Cons.IH[OF h1(2,3)] h1(1) show ?case
    by auto
qed

lemma chain_start:
  assumes "cleared h builder"
  shows "\<exists>h' a t. chain (h, Inr builder) (optional Element e @ optional Id_m i @ rest) =
             chain (h', Inr a) rest \<and> owns h' a \<and>
           view h' a = (t, i, None, None, None, None, None) \<and>
           (case t of Some x \<Rightarrow> x | None \<Rightarrow> []) = concat (optional (\<lambda>x. x) e)"
proof (cases e)
  case None
  show ?thesis
  proof (cases i)
    case None
    with \<open>e = None\<close> assms show ?thesis
      by (intro exI[of _ h] exI[of _ builder] exI[of _ None])
        (simp add: owns_def cleared_def view_def)
  next
    case (Some x)
    from assms have "view h builder = (None, None, None, None, None, None, None)"
      by (simp add: cleared_def view_def)
    from id_m_view[OF assms _ this, of x] obtain h1 ob where
      "id_m h builder x = (h1, Inr ob)" "cleared h1 builder"
      "view h1 ob = (None, Some x, None, None, None, None, None)"
      by (auto simp add: builder_def)
    with Some \<open>e = None\<close> show ?thesis
      by (intro exI[of _ h1] exI[of _ ob] exI[of _ None]) (simp add: owns_def)
  qed
next
  case (Some t)
  from element_view[OF assms, of t] obtain h1 where h1:
    "element h builder t = (h1, Inr (Suc (created h)))" "cleared h1 builder"
    "created h1 = Suc (created h)"
    "view h1 (Suc (created h)) = (Some t, None, None, None, None, None, None)"
    by blast
  show ?thesis
  proof (cases i)
    case None
    with Some h1 show ?thesis
      by (intro exI[of _ h1] exI[of _ "Suc (created h)"] exI[of _ "Some t"])
        (simp add: owns_def)
  next
    case (Some x)
    from h1(3) have "Suc (created h) \<le> created h1" by simp
    from id_m_view[OF h1(2) this h1(4), of x] obtain h2 ob where
      "id_m h1 (Suc (created h)) x = (h2, Inr ob)" "cleared h2 builder"
      "view h2 ob = ((if truthy_str (Some t) then Some t else None), Some x, None, None, None, None, None)"
      by blast
    with Some \<open>e = Some t\<close> h1(1) show ?thesis
      by (intro exI[of _ h2] exI[of _ ob]
          exI[of _ "if truthy_str (Some t) then Some t else None"])
        (simp add: owns_def)
  qed
qed

lemma join_Cons: "join sep (x # xs) = x @ concat (map (\<lambda>y. sep @ y) xs)"
  by (induction xs arbitrary: x) simp_all

lemma join_classes: "cs \<noteq> [] \<Longrightarrow> ''.'' @ join ''.'' cs = concat (map (\<lambda>c. ''.'' @ c) cs)"
  by (cases cs) (simp_all add: join_Cons)

lemma join_empty_sep: "join [] ps = concat ps"
  by (cases ps) (simp_all add: join_Cons)


lemma chain_attr:
  assumes "owns h a" and "view h a = (t, i, cs, None, None, None, co)"
  shows "\<exists>h'. chain (h, Inr a) (optional Attr at @ rest) = chain (h', Inr a) rest \<and> owns h' a \<and>
           view h' a = (t, i, cs, map_option (\<lambda>x. ''['' @ x @ '']'') at, None, None, co)"
proof (cases at)
  case None
  with assms show ?thesis by (intro exI[of _ h]) simp
next
  case (Some x)
  from attr_view[OF assms, of x] obtain h1 where
    "attr h a x = (h1, Inr a)" "owns h1 a"
    "view h1 a = (t, i, cs, Some (''['' @ x @ '']''), None, None, co)"
    by blast
  with Some show ?thesis by (intro exI[of _ h1]) simp
qed

lemma chain_pseudoElement:
  assumes "owns h a" and "view h a = (t, i, cs, at, ps, None, co)"
  shows "\<exists>h'. chain (h, Inr a) (optional PseudoElement pe) = (h', Inr a) \<and>
           view h' a = (t, i, cs, at, ps, map_option (\<lambda>x. ''::'' @ x) pe, co)"
proof (cases pe)
  case None
  with assms show ?thesis by (intro exI[of _ h]) simp
next
  case (Some x)
  from pseudoElement_view[OF assms, of x] obtain h1 where
    "pseudoElement h a x = (h1, Inr a)"
    "view h1 a = (t, i, cs, at, ps, Some (''::'' @ x), co)"
    by blast
  with Some show ?thesis by (intro exI[of _ h1]) simp
qed

lemma chain_calls_of:
  assumes "cleared h builder"
  shows "\<exists>h' a t. chain (h, Inr builder) (calls_of e i cs at ps pe) = (h', Inr a) \<and>
           (case t of Some x \<Rightarrow> x | None \<Rightarrow> []) = concat (optional (\<lambda>x. x) e) \<and>
           view h' a =
             (t, i, (if cs = [] then None else Some cs), map_option (\<lambda>x. ''['' @ x @ '']'') at,
              (if ps = [] then None else Some (map (\<lambda>p. '':'' @ p) ps)),
              map_option (\<lambda>x. ''::'' @ x) pe, None)"
proof -
  let ?r1 = "map Class cs @ optional Attr at @ map PseudoClass ps @ optional PseudoElement pe"
  let ?r2 = "optional Attr at @ map PseudoClass ps @ optional PseudoElement pe"
  let ?r3 = "map PseudoClass ps @ optional PseudoElement pe"
  from chain_start[OF assms, of e i ?r1] obtain h1 a t where 1:
    "chain (h, Inr builder) (optional Element e @ optional Id_m i @ ?r1) = chain (h1, Inr a) ?r1"
    "owns h1 a" "view h1 a = (t, i, None, None, None, None, None)"
    "(case t of Some x \<Rightarrow> x | None \<Rightarrow> []) = concat (optional (\<lambda>x. x) e)"
    by blast
  from chain_classes[OF 1(2,3), of cs ?r2] obtain h2 where 2:
    "chain (h1, Inr a) ?r1 = chain (h2, Inr a) ?r2" "owns h2 a"
    "view h2 a = (t, i, (if cs = [] then None else Some cs), None, None, None, None)"
    by auto
  from chain_attr[OF 2(2,3), of at ?r3] obtain h3 where 3:
    "chain (h2, Inr a) ?r2 = chain (h3, Inr a) ?r3" "owns h3 a"
    "view h3 a = (t, i, (if cs = [] then None else Some cs),
                  map_option (\<lambda>x. ''['' @ x @ '']'') at, None, None, None)"
    by blast
  from chain_pseudoClasses[OF 3(2,3), of ps "optional PseudoElement pe"] obtain h4 where 4:
    "chain (h3, Inr a) ?r3 = chain (h4, Inr a) (optional PseudoElement pe)" "owns h4 a"
    "view h4 a = (t, i, (if cs = [] then None else Some cs),
                  map_option (\<lambda>x. ''['' @ x @ '']'') at,
                  (if ps = [] then None else Some (map (\<lambda>p. '':'' @ p) ps)), None, None)"
    by auto
  from chain_pseudoElement[OF 4(2,3), of pe] obtain h5 where 5:
    "chain (h4, Inr a) (optional PseudoElement pe) = (h5, Inr a)"
    "view h5 a = (t, i, (if cs = [] then None else Some cs),
                  map_option (\<lambda>x. ''['' @ x @ '']'') at,
                  (if ps = [] then None else Some (map (\<lambda>p. '':'' @ p) ps)),
                  map_option (\<lambda>x. ''::'' @ x) pe, None)"
    by blast
  from 1(1) 2(1) 3(1) 4(1) 5(1)
  have "chain (h, Inr builder) (calls_of e i cs at ps pe) = (h5, Inr a)"
    by (simp add: calls_of_def)
  with 1(4) 5(2) show ?thesis by blast
qed

subsection \<open>Rendering\<close>

lemma stringify_fixed_order:
  "snd (stringify h this) =
     concat (optional (\<lambda>x. x) (get tag h this)) @
     (if truthy_str (get myId h this)
      then ''#'' @ concat (optional (\<lambda>x. x) (get myId h this)) else []) @
     (case get classes h this of None \<Rightarrow> [] | Some xs \<Rightarrow> ''.'' @ join ''.'' xs) @
     concat (optional (\<lambda>x. x) (get attribute h this)) @
     (case get pseudoClasses h this of None \<Rightarrow> [] | Some xs \<Rightarrow> concat xs) @
     concat (optional (\<lambda>x. x) (get pseudoElem h this)) @
     concat (optional (\<lambda>x. x) (get combination h this))"
proof -
  obtain t i cs at ps pe co where v: "view h this = (t, i, cs, at, ps, pe, co)"
    by (cases "view h this") auto
  then have g: "get tag h this = t" "get myId h this = i" "get classes h this = cs"
    "get attribute h this = at" "get pseudoClasses h this = ps" "get pseudoElem h this = pe"
    "get combination h this = co"
    by (simp_all add: view_def)
  show ?thesis
    unfolding stringify_view[OF v] g
    by (cases t; cases i; cases cs; cases at; cases ps; cases pe; cases co)
      (simp_all add: join_empty_sep)
qed

lemma get_upd_reset_other:
  assumes "s1 \<noteq> s2" and "get p h builder = None" and "\<And>s. p (reset s) = Undef"
  shows "get p (upd h s1 reset) s2 = get p h s2"
  using assms by (auto simp add: get_def split: slot.splits)

lemma stringify_after_reset_other:
  assumes "cleared h builder" and "s1 \<noteq> s2"
  shows "snd (stringify (upd h s1 reset) s2) = snd (stringify h s2)"
proof -
  from assms have "view (upd h s1 reset) s2 = view h s2"
    by (simp add: view_def cleared_def get_upd_reset_other reset_def)
  then show ?thesis
    by (cases "view h s2") (simp add: stringify_view)
qed

lemma snd_combine: "snd (combine h s1 c s2) = Inr (Suc (created h))"
  by (simp add: combine_def Let_def case_prod_beta fst_stringify alloc_def)

lemma composite_view:
  assumes "cleared h builder"
  shows "view (fst (combine h s1 c s2)) (Suc (created h)) =
     (None, None, None, None, None, None,
      Some (snd (stringify h s1) @ '' '' @ c @ '' '' @ snd (stringify (upd h s1 reset) s2)))"
proof -
  have "cleared (upd (upd h s1 reset) s2 reset) builder"
    using assms
    by (simp add: cleared_def get_def reset_def split: slot.splits)
  then show ?thesis
    by (simp add: fst_combine view_def cleared_def get_simps)
qed

lemma stringify_tag_empty:
  assumes "get tag h ob = Some []"
  shows "snd (stringify h ob) = snd (stringify (upd h ob (\<lambda>s. s\<lparr>tag := Undef\<rparr>)) ob)"
proof -
  from assms obtain i cs at ps pe co where v: "view h ob = (Some [], i, cs, at, ps, pe, co)"
    by (simp add: view_def)
  then have "view (upd h ob (\<lambda>s. s\<lparr>tag := Undef\<rparr>)) ob = (None, i, cs, at, ps, pe, co)"
    by (simp add: view_def get_simps)
  then show ?thesis
    by (simp add: stringify_view[OF v] stringify_view)
qed

lemma stringify_myId_empty:
  assumes "get myId h ob = Some []"
  shows "snd (stringify h ob) = snd (stringify (upd h ob (\<lambda>s. s\<lparr>myId := Undef\<rparr>)) ob)"
proof -
  from assms obtain t cs at ps pe co where v: "view h ob = (t, Some [], cs, at, ps, pe, co)"
    by (simp add: view_def)
  then have "view (upd h ob (\<lambda>s. s\<lparr>myId := Undef\<rparr>)) ob = (t, None, cs, at, ps, pe, co)"
    by (simp add: view_def get_simps)
  then show ?thesis
    by (simp add: stringify_view[OF v] stringify_view)
qed

lemma element_result:
  assumes "element h this v = (h1, Inr ob)"
  shows "ob = Suc (created h)" "created h1 = Suc (created h)" "get tag h1 ob = Some v"
    "get myId h1 ob = get myId h builder"
  using assms
  by (auto simp add: element_def case_prod_beta Let_def get_simps split: if_splits)

lemma id_m_result:
  assumes "id_m h this v = (h1, Inr ob)"
  shows "get myId h1 ob = Some v"
  using assms
  by (auto simp add: id_m_def case_prod_beta Let_def get_simps split: if_splits)

lemma get_alloc_other: "b \<noteq> Suc (created h) \<Longrightarrow> get p (fst (alloc h)) b = get p h b"
  by (auto simp add: get_def alloc_def builder_def split: slot.splits)

lemma get_alloc_None:
  assumes "get p h builder = None" and "get p h b = None" and "p empty_obj = Absent"
  shows "get p (fst (alloc h)) b = None"
  using assms by (cases "b = Suc (created h)") (simp_all add: get_alloc_new get_alloc_other)

lemma id_m_again_prop:
  assumes "id_m h this v = (h1, Inr ob)" and "get p h builder = None" and "get p h this = None"
    and "p empty_obj = Absent" and "\<And>s x. p (s\<lparr>myId := x\<rparr>) = p s"
  shows "get p h1 ob = None"
proof -
  from assms(1) have h1: "h1 = upd (fst (alloc h)) ob (\<lambda>s. s\<lparr>myId := Val v\<rparr>)"
    and ob: "ob = this \<or> ob = Suc (created h)"
    by (auto simp add: id_m_def case_prod_beta Let_def snd_alloc split: if_splits)
  from ob assms(2,3,4) have "get p (fst (alloc h)) ob = None"
    by (auto simp add: get_alloc_None get_alloc_new)
  then show ?thesis
    unfolding h1 by (simp add: get_upd_unchanged assms(5))
qed

lemma id_m_again:
  assumes "id_m h this v = (h1, Inr ob)" and "cleared h builder"
  shows "get pseudoElem h1 ob = None" "get classes h1 ob = None" "get pseudoClasses h1 ob = None"
proof -
  from assms(1) have "get pseudoElem h this = None" "get classes h this = None"
    "get pseudoClasses h this = None"
    by (auto simp add: id_m_def split: if_splits)
  with assms show "get pseudoElem h1 ob = None" "get classes h1 ob = None"
    "get pseudoClasses h1 ob = None"
    by (auto intro!: id_m_again_prop[OF assms(1)] simp add: cleared_def empty_obj_def)
qed

lemma rendered_combine:
  "snd (rendered (combine h s1 c s2)) =
     Inr (snd (stringify (fst (combine h s1 c s2)) (Suc (created h))))"
proof -
  have "combine h s1 c s2 = (fst (combine h s1 c s2), Inr (Suc (created h)))"
    by (simp add: prod_eq_iff snd_combine)
  then show ?thesis
    by (metis rendered.simps(2) snd_conv)
qed

subsection \<open>No method throws a TypeError\<close>

text \<open>
  \<^verbatim>\<open>push\<close> is only called when the property does not read \<^verbatim>\<open>undefined\<close>, so the
  only errors of the methods are the two that the source throws itself.
\<close>

lemma push_defined:
  "get p h this \<noteq> None \<Longrightarrow> push p set_p h this v \<noteq> None"
  by (auto simp add: get_def push_def split: slot.splits if_splits)

lemma class_m_no_TypeError: "snd (class_m h this v) \<noteq> Inl TypeError"
proof (cases "get classes h this = None")
  case True
  have "get classes (upd h this (\<lambda>s. s\<lparr>classes := Val []\<rparr>)) this \<noteq> None"
    by (simp add: get_upd_Val)
  from push_defined[OF this, of "\<lambda>x s. s\<lparr>classes := x\<rparr>" v] True show ?thesis
    by (auto simp add: class_m_def Let_def split: option.splits)
next
  case False
  from push_defined[OF this, of "\<lambda>x s. s\<lparr>classes := x\<rparr>" v] False show ?thesis
    by (auto simp add: class_m_def Let_def split: option.splits)
qed

lemma pseudoClass_no_TypeError: "snd (pseudoClass h this v) \<noteq> Inl TypeError"
proof (cases "get pseudoClasses h this = None")
  case True
  have "get pseudoClasses (upd h this (\<lambda>s. s\<lparr>pseudoClasses := Val []\<rparr>)) this \<noteq> None"
    by (simp add: get_upd_Val)
  from push_defined[OF this, of "\<lambda>x s. s\<lparr>pseudoClasses := x\<rparr>" "'':'' @ v"] True
  show ?thesis
    by (auto simp add: pseudoClass_def Let_def split: option.splits)
next
  case False
  from push_defined[OF this, of "\<lambda>x s. s\<lparr>pseudoClasses := x\<rparr>" "'':'' @ v"] False
  show ?thesis
    by (auto simp add: pseudoClass_def Let_def split: option.splits)
qed

lemma call_no_TypeError: "snd (call h this f) \<noteq> Inl TypeError"
  by (cases f)
    (auto simp add: class_m_no_TypeError pseudoClass_no_TypeError element_def id_m_def attr_def
      pseudoElement_def Let_def case_prod_beta)

section \<open>The claims\<close>

subsection \<open>Appends out of the grammar's order\<close>

text \<open>
  Claim C1 says that every append after a fragment of a later order throws the order
  error. The methods do not check every later fragment: \<^verbatim>\<open>id\<close> does not look at the
  attribute, \<^verbatim>\<open>class\<close> looks at the attribute only, \<^verbatim>\<open>attr\<close> at the pseudo-classes
  only, \<^verbatim>\<open>element\<close> at the id only. On the builder as loaded:
  \<^verbatim>\<open>element('a').attr('x').id('i')\<close> returns the selector, which renders as
  \<^verbatim>\<open>a#i[x]\<close>; \<^verbatim>\<open>element('div').pseudoClass('hover').class('c')\<close> renders as
  \<^verbatim>\<open>div.c\<close>, the pseudo-class being dropped;
  \<^verbatim>\<open>element('a').pseudoElement('after').attr('x')\<close> renders as \<^verbatim>\<open>a[x]\<close>, the
  pseudo-element being dropped; and \<^verbatim>\<open>class('c').element('div')\<close> renders as
  \<^verbatim>\<open>div.c\<close>. None of these calls throws.
\<close>

theorem out_of_order_accepted:
  "snd (chain (init_heap, Inr builder) [Element ''a'', Attr ''x'']) = Inr (Suc 0) \<and>
   get attribute (made [Element ''a'', Attr ''x'']) (Suc 0) = Some ''[x]'' \<and>
   snd (id_m (made [Element ''a'', Attr ''x'']) (Suc 0) ''i'') = Inr (Suc 0) \<and>
   snd (rendered (chain (init_heap, Inr builder) [Element ''a'', Attr ''x'', Id_m ''i''])) =
     Inr ''a#i[x]'' \<and>
   snd (rendered (chain (init_heap, Inr builder)
          [Element ''div'', PseudoClass ''hover'', Class ''c''])) = Inr ''div.c'' \<and>
   snd (rendered (chain (init_heap, Inr builder)
          [Element ''a'', PseudoElement ''after'', Attr ''x''])) = Inr ''a[x]'' \<and>
   snd (rendered (chain (init_heap, Inr builder) [Class ''c'', Element ''div''])) =
     Inr ''div.c''"
  by (simp add: method_defs store_defs)

subsection \<open>The rendering\<close>

text \<open>
  Claim C2, amended: \<^verbatim>\<open>stringify\<close> concatenates, in this order, the element, \<^verbatim>\<open>#\<close> and
  the id when the id is not the empty string (an empty id is left out, and the \<^verbatim>\<open>#\<close>
  with it), the classes each after a \<^verbatim>\<open>.\<close>, the attribute in brackets, the pseudo-classes
  each after a \<^verbatim>\<open>:\<close> in the order they were appended, and the pseudo-element after
  \<^verbatim>\<open>::\<close>, for every choice of fragments appended in the grammar's order on a builder
  that holds no fragment of its own. This is the second conjunct: whatever the element,
  the id, the classes, the attribute, the pseudo-classes and the pseudo-element are, the
  chain \<open>calls_of\<close> followed by \<^verbatim>\<open>stringify\<close> returns the specification's rendering
  \<open>render_spec\<close> of these fragments, the empty id counting as no id. The first conjunct
  is the rendering of every object in every store from what its seven properties read;
  the two examples of the claim are the last two conjuncts.
\<close>

theorem stringify_renders_fragments:
  "snd (stringify h0 this) =
     concat (optional (\<lambda>x. x) (get tag h0 this)) @
     (if truthy_str (get myId h0 this)
      then ''#'' @ concat (optional (\<lambda>x. x) (get myId h0 this)) else []) @
     (case get classes h0 this of None \<Rightarrow> [] | Some xs \<Rightarrow> ''.'' @ join ''.'' xs) @
     concat (optional (\<lambda>x. x) (get attribute h0 this)) @
     (case get pseudoClasses h0 this of None \<Rightarrow> [] | Some xs \<Rightarrow> concat xs) @
     concat (optional (\<lambda>x. x) (get pseudoElem h0 this)) @
     concat (optional (\<lambda>x. x) (get combination h0 this)) \<and>
   (cleared h builder \<longrightarrow>
      snd (rendered (chain (h, Inr builder) (calls_of e i cs at ps pe))) =
        Inr (render_spec e (if i = Some [] then None else i) cs at ps pe)) \<and>
   snd (rendered (chain (init_heap, Inr builder)
          [Id_m ''main'', Class ''container'', Class ''editable''])) =
     Inr ''#main.container.editable'' \<and>
   snd (rendered (chain (init_heap, Inr builder)
          [Element ''a'', Attr ''href$=\".png\"'', PseudoClass ''focus''])) =
     Inr ''a[href$=\".png\"]:focus''"
proof (intro conjI impI)
  show "snd (stringify h0 this) =
     concat (optional (\<lambda>x. x) (get tag h0 this)) @
     (if truthy_str (get myId h0 this)
      then ''#'' @ concat (optional (\<lambda>x. x) (get myId h0 this)) else []) @
     (case get classes h0 this of None \<Rightarrow> [] | Some xs \<Rightarrow> ''.'' @ join ''.'' xs) @
     concat (optional (\<lambda>x. x) (get attribute h0 this)) @
     (case get pseudoClasses h0 this of None \<Rightarrow> [] | Some xs \<Rightarrow> concat xs) @
     concat (optional (\<lambda>x. x) (get pseudoElem h0 this)) @
     concat (optional (\<lambda>x. x) (get combination h0 this))"
    by (rule stringify_fixed_order)
next
  assume asm: "cleared h builder"
  from chain_calls_of[of h e i cs at ps pe] asm obtain h' a t where *:
    "chain (h, Inr builder) (calls_of e i cs at ps pe) = (h', Inr a)"
    "(case t of Some x \<Rightarrow> x | None \<Rightarrow> []) = concat (optional (\<lambda>x. x) e)"
    "view h' a =
       (t, i, (if cs = [] then None else Some cs), map_option (\<lambda>x. ''['' @ x @ '']'') at,
        (if ps = [] then None else Some (map (\<lambda>p. '':'' @ p) ps)),
        map_option (\<lambda>x. ''::'' @ x) pe, None)"
    by blast
  have i: "(case i of Some x \<Rightarrow> if x \<noteq> [] then ''#'' @ x else [] | None \<Rightarrow> []) =
        concat (optional (\<lambda>x. ''#'' @ x) (if i = Some [] then None else i))"
    by (cases i) auto
  have c: "(case (if cs = [] then None else Some cs) of Some xs \<Rightarrow> ''.'' @ join ''.'' xs
            | None \<Rightarrow> []) = concat (map (\<lambda>c. ''.'' @ c) cs)"
    using join_classes[of cs] by (cases "cs = []") simp_all
  have a: "(case map_option (\<lambda>x. ''['' @ x @ '']'') at of Some x \<Rightarrow> x | None \<Rightarrow> []) =
        concat (optional (\<lambda>x. ''['' @ x @ '']'') at)"
    by (cases at) simp_all
  have p: "(case (if ps = [] then None else Some (map (\<lambda>p. '':'' @ p) ps)) of
              Some xs \<Rightarrow> join [] xs | None \<Rightarrow> []) = concat (map (\<lambda>p. '':'' @ p) ps)"
  proof (cases "ps = []")
    case True
    then show ?thesis by simp
  next
    case False
    then show ?thesis by (simp only: join_empty_sep if_False option.case)
  qed
  have e: "(case map_option (\<lambda>x. ''::'' @ x) pe of Some x \<Rightarrow> x | None \<Rightarrow> []) =
        concat (optional (\<lambda>x. ''::'' @ x) pe)"
    by (cases pe) simp_all
  have "snd (stringify h' a) = render_spec e (if i = Some [] then None else i) cs at ps pe"
    unfolding stringify_view[OF *(3)] render_spec_def *(2) i c a p e by simp
  with *(1) show "snd (rendered (chain (h, Inr builder) (calls_of e i cs at ps pe))) =
        Inr (render_spec e (if i = Some [] then None else i) cs at ps pe)"
    by simp
next
  show "snd (rendered (chain (init_heap, Inr builder)
          [Id_m ''main'', Class ''container'', Class ''editable''])) =
     Inr ''#main.container.editable''"
    by (simp add: method_defs store_defs)
next
  show "snd (rendered (chain (init_heap, Inr builder)
          [Element ''a'', Attr ''href$=\".png\"'', PseudoClass ''focus''])) =
     Inr ''a[href$=\".png\"]:focus''"
    by (simp add: method_defs store_defs)
qed

theorem stringify_renders_fragments_witness:
  "cleared init_heap builder \<and>
   snd (rendered (chain (init_heap, Inr builder)
     (calls_of (Some ''div'') (Some ''main'') [''container'', ''draggable''] (Some ''title'')
        [''hover'', ''focus''] (Some ''after'')))) =
     Inr ''div#main.container.draggable[title]:hover:focus::after'' \<and>
   snd (rendered (chain (init_heap, Inr builder)
     (calls_of (Some ''a'') (Some []) [''c''] None [] None))) = Inr ''a.c''"
  using stringify_renders_fragments
      [of _ _ init_heap "Some ''div''" "Some ''main''" "[''container'', ''draggable'']"
          "Some ''title''" "[''hover'', ''focus'']" "Some ''after''"]
    stringify_renders_fragments
      [of _ _ init_heap "Some ''a''" "Some []" "[''c'']" None "[]" None]
  by (simp add: render_spec_def cleared_def get_def init_heap_def empty_obj_def builder_def)

text \<open>
  The claim as stated, for every selector, fails in two ways. After
  \<^verbatim>\<open>element('a').id('').class('c')\<close> the selector has an id, the empty string, and
  \<^verbatim>\<open>stringify\<close> returns \<^verbatim>\<open>a.c\<close> where \<^verbatim>\<open>#\<close> followed by the id gives \<^verbatim>\<open>a#.c\<close>.
  And when the builder itself holds a fragment (after \<^verbatim>\<open>builder.class('x')\<close>), the
  selector that \<^verbatim>\<open>element('a')\<close> returns inherits it and renders as \<^verbatim>\<open>a.x\<close>, not as
  \<^verbatim>\<open>a\<close>.
\<close>

theorem stringify_renders_fragments_counterexample:
  "calls_of (Some ''a'') (Some []) [''c''] None [] None = [Element ''a'', Id_m [], Class ''c''] \<and>
   snd (rendered (chain (init_heap, Inr builder) [Element ''a'', Id_m [], Class ''c''])) =
     Inr ''a.c'' \<and>
   render_spec (Some ''a'') (Some []) [''c''] None [] None = ''a#.c'' \<and>
   snd (rendered (chain (init_heap, Inr builder)
          (calls_of (Some ''a'') (Some []) [''c''] None [] None))) \<noteq>
     Inr (render_spec (Some ''a'') (Some []) [''c''] None [] None) \<and>
   calls_of (Some ''a'') None [] None [] None = [Element ''a''] \<and>
   snd (rendered (chain (made [Class ''x''], Inr builder) [Element ''a''])) = Inr ''a.x'' \<and>
   render_spec (Some ''a'') None [] None [] None = ''a'' \<and>
   snd (rendered (chain (made [Class ''x''], Inr builder)
          (calls_of (Some ''a'') None [] None [] None))) \<noteq>
     Inr (render_spec (Some ''a'') None [] None [] None)"
  by (simp add: calls_of_def render_spec_def method_defs store_defs)

subsection \<open>A singleton fragment set twice\<close>

text \<open>
  Claim C3, amended: for every selector and every value, \<^verbatim>\<open>element\<close> on a selector
  whose \<^verbatim>\<open>tag\<close> is set (reads truthy) and \<^verbatim>\<open>pseudoElement\<close> on a selector whose
  \<^verbatim>\<open>pseudoElem\<close> is set throw the duplicate error and leave the store as it was;
  \<^verbatim>\<open>id\<close> on a selector whose \<^verbatim>\<open>myId\<close> is set throws the duplicate error when the
  selector has no pseudo-element, and the order error when it has one, because \<^verbatim>\<open>id\<close>
  tests the pseudo-element first. In particular calling \<^verbatim>\<open>element\<close> (with a non-empty
  value) and then \<^verbatim>\<open>element\<close> again on the object returned, or \<^verbatim>\<open>pseudoElement\<close>
  twice, throws the duplicate error.
\<close>

theorem singleton_fragment_twice:
  "(truthy_str (get tag h this) \<longrightarrow> element h this v = (h, Inl DuplicateFragment)) \<and>
   (truthy_str (get pseudoElem h this) \<longrightarrow> pseudoElement h this v = (h, Inl DuplicateFragment)) \<and>
   (truthy_str (get myId h this) \<and> get pseudoElem h this = None \<longrightarrow>
      id_m h this v = (h, Inl DuplicateFragment)) \<and>
   (truthy_str (get myId h this) \<and> get pseudoElem h this \<noteq> None \<longrightarrow>
      id_m h this v = (h, Inl OrderViolation)) \<and>
   (w \<noteq> [] \<and> element h this w = (h1, Inr ob) \<longrightarrow>
      element h1 ob v = (h1, Inl DuplicateFragment)) \<and>
   (pseudoElement h this w = (h1, Inr ob) \<longrightarrow>
      pseudoElement h1 ob v = (h1, Inl DuplicateFragment))"
proof (intro conjI impI)
  assume "w \<noteq> [] \<and> element h this w = (h1, Inr ob)"
  then have "get tag h1 ob = Some w" and "w \<noteq> []"
    by (auto simp add: element_def case_prod_beta Let_def get_simps split: if_splits)
  then show "element h1 ob v = (h1, Inl DuplicateFragment)"
    by (simp add: element_def)
next
  assume "pseudoElement h this w = (h1, Inr ob)"
  then have "get pseudoElem h1 ob = Some (''::'' @ w)"
    by (auto simp add: pseudoElement_def get_simps split: if_splits)
  then show "pseudoElement h1 ob v = (h1, Inl DuplicateFragment)"
    by (simp add: pseudoElement_def)
qed (simp_all add: element_def pseudoElement_def id_m_def)

theorem singleton_fragment_twice_witness:
  "truthy_str (get tag (made [Element ''div'']) (Suc 0)) \<and>
   element (made [Element ''div'']) (Suc 0) ''span'' =
     (made [Element ''div''], Inl DuplicateFragment) \<and>
   truthy_str (get pseudoElem (made [Element ''div'', PseudoElement ''after'']) (Suc 0)) \<and>
   pseudoElement (made [Element ''div'', PseudoElement ''after'']) (Suc 0) ''before'' =
     (made [Element ''div'', PseudoElement ''after''], Inl DuplicateFragment) \<and>
   truthy_str (get myId (made [Id_m ''a'']) (Suc 0)) \<and>
   get pseudoElem (made [Id_m ''a'']) (Suc 0) = None \<and>
   id_m (made [Id_m ''a'']) (Suc 0) ''b'' = (made [Id_m ''a''], Inl DuplicateFragment) \<and>
   truthy_str (get myId (made [Id_m ''a'', PseudoElement ''after'']) (Suc 0)) \<and>
   get pseudoElem (made [Id_m ''a'', PseudoElement ''after'']) (Suc 0) \<noteq> None \<and>
   id_m (made [Id_m ''a'', PseudoElement ''after'']) (Suc 0) ''b'' =
     (made [Id_m ''a'', PseudoElement ''after''], Inl OrderViolation) \<and>
   ''div'' \<noteq> [] \<and>
   element init_heap builder ''div'' = (made [Element ''div''], Inr (Suc 0)) \<and>
   pseudoElement (made [Element ''div'']) (Suc 0) ''after'' =
     (made [Element ''div'', PseudoElement ''after''], Inr (Suc 0))"
  using singleton_fragment_twice [of "made [Element ''div'']" "Suc 0" "''span''"]
    singleton_fragment_twice
      [of "made [Element ''div'', PseudoElement ''after'']" "Suc 0" "''before''"]
    singleton_fragment_twice [of "made [Id_m ''a'']" "Suc 0" "''b''"]
    singleton_fragment_twice [of "made [Id_m ''a'', PseudoElement ''after'']" "Suc 0" "''b''"]
    singleton_fragment_twice
      [of init_heap builder "''span''" "''div''" "made [Element ''div'']" "Suc 0"]
    singleton_fragment_twice
      [of "made [Element ''div'']" "Suc 0" "''before''" "''after''"
          "made [Element ''div'', PseudoElement ''after'']" "Suc 0"]
  by (simp add: method_defs store_defs)

text \<open>
  The claim as stated fails for \<^verbatim>\<open>id\<close>: after \<^verbatim>\<open>id('a').pseudoElement('after')\<close> the
  selector has an id, and \<^verbatim>\<open>id('b')\<close> throws the order error, not the duplicate error.
\<close>

theorem id_after_pseudoElement_counterexample:
  "snd (chain (init_heap, Inr builder) [Id_m ''a'', PseudoElement ''after'']) = Inr (Suc 0) \<and>
   truthy_str (get myId (made [Id_m ''a'', PseudoElement ''after'']) (Suc 0)) \<and>
   snd (id_m (made [Id_m ''a'', PseudoElement ''after'']) (Suc 0) ''b'') = Inl OrderViolation \<and>
   snd (id_m (made [Id_m ''a'', PseudoElement ''after'']) (Suc 0) ''b'') \<noteq>
     Inl DuplicateFragment"
  by (simp add: method_defs store_defs)

subsection \<open>Rendering resets the selector\<close>

text \<open>
  Claim C4: after \<^verbatim>\<open>stringify\<close>, each of the seven fragment properties of the instance
  (\<^verbatim>\<open>tag\<close>, \<^verbatim>\<open>myId\<close>, \<^verbatim>\<open>classes\<close>, \<^verbatim>\<open>attribute\<close>, \<^verbatim>\<open>pseudoClasses\<close>,
  \<^verbatim>\<open>pseudoElem\<close>, \<^verbatim>\<open>combination\<close>) reads \<^verbatim>\<open>undefined\<close>, and calling \<^verbatim>\<open>stringify\<close>
  again on the same instance returns the empty string. This holds in every store and for
  every object, the builder itself included.
\<close>

theorem stringify_resets:
  "cleared (fst (stringify h this)) this \<and>
   snd (stringify (fst (stringify h this)) this) = []"
  by (simp add: fst_stringify cleared_reset stringify_cleared)

subsection \<open>Rendering a combination\<close>

text \<open>
  Claim C5, amended: in a store whose builder holds no fragment of its own, for two
  different selector objects and every combinator, \<^verbatim>\<open>stringify\<close> of the object that
  \<^verbatim>\<open>combine(selector1, combinator, selector2)\<close> returns is the rendering of
  \<^verbatim>\<open>selector1\<close>, a space, the combinator, a space, and the rendering of \<^verbatim>\<open>selector2\<close>,
  both renderings being those of the store before the call. When both sides are the same
  object, the right-hand rendering is empty, the left-hand one having reset the object. In
  particular \<^verbatim>\<open>combine(element('div').id('main'), '+', element('span'))\<close>, on the
  builder as loaded, renders as \<^verbatim>\<open>div#main + span\<close>.
\<close>

theorem combine_renders:
  "(cleared h builder \<and> selector1 \<noteq> selector2 \<longrightarrow>
      snd (rendered (combine h selector1 combinator selector2)) =
        Inr (snd (stringify h selector1) @ '' '' @ combinator @ '' '' @
             snd (stringify h selector2))) \<and>
   (cleared h builder \<longrightarrow>
      snd (rendered (combine h selector1 combinator selector1)) =
        Inr (snd (stringify h selector1) @ '' '' @ combinator @ '' '')) \<and>
   snd (rendered (combine_chains init_heap [Element ''div'', Id_m ''main''] ''+''
          [Element ''span''])) = Inr ''div#main + span''"
proof (intro conjI impI)
  assume asm: "cleared h builder \<and> selector1 \<noteq> selector2"
  then have "snd (stringify (fst (combine h selector1 combinator selector2)) (Suc (created h))) =
      snd (stringify h selector1) @ '' '' @ combinator @ '' '' @
      snd (stringify (upd h selector1 reset) selector2)"
    by (simp add: stringify_view[OF composite_view])
  also have "snd (stringify (upd h selector1 reset) selector2) = snd (stringify h selector2)"
    using asm by (simp add: stringify_after_reset_other)
  finally show "snd (rendered (combine h selector1 combinator selector2)) =
        Inr (snd (stringify h selector1) @ '' '' @ combinator @ '' '' @
             snd (stringify h selector2))"
    by (simp add: rendered_combine)
next
  assume asm: "cleared h builder"
  then have "snd (stringify (fst (combine h selector1 combinator selector1)) (Suc (created h))) =
      snd (stringify h selector1) @ '' '' @ combinator @ '' '' @
      snd (stringify (upd h selector1 reset) selector1)"
    by (simp add: stringify_view[OF composite_view])
  also have "snd (stringify (upd h selector1 reset) selector1) = []"
    by (simp add: stringify_cleared cleared_reset)
  finally show "snd (rendered (combine h selector1 combinator selector1)) =
        Inr (snd (stringify h selector1) @ '' '' @ combinator @ '' '')"
    by (simp add: rendered_combine)
next
  show "snd (rendered (combine_chains init_heap [Element ''div'', Id_m ''main''] ''+''
          [Element ''span''])) = Inr ''div#main + span''"
    by (simp add: method_defs store_defs)
qed

theorem combine_renders_witness:
  "cleared (run (made [Element ''table'', Id_m ''data'']) [Element ''tr'']) builder \<and>
   Suc 0 \<noteq> Suc (Suc (Suc 0)) \<and>
   snd (stringify (run (made [Element ''table'', Id_m ''data'']) [Element ''tr'']) (Suc 0)) =
     ''table#data'' \<and>
   snd (stringify (run (made [Element ''table'', Id_m ''data'']) [Element ''tr''])
          (Suc (Suc (Suc 0)))) = ''tr'' \<and>
   snd (rendered (combine (run (made [Element ''table'', Id_m ''data'']) [Element ''tr''])
          (Suc 0) ''~'' (Suc (Suc (Suc 0))))) = Inr ''table#data ~ tr'' \<and>
   snd (rendered (combine (run (made [Element ''table'', Id_m ''data'']) [Element ''tr''])
          (Suc 0) ''~'' (Suc 0))) = Inr ''table#data ~ ''"
  using combine_renders
    [of "run (made [Element ''table'', Id_m ''data'']) [Element ''tr'']"
        "Suc 0" "Suc (Suc (Suc 0))" "''~''"]
  by (simp add: cleared_def method_defs store_defs)

text \<open>
  The claim as stated, for every pair of selectors, fails in two ways. With the same
  object on both sides, the left rendering resets the object before the right one is
  taken: \<^verbatim>\<open>s = element('div'); combine(s, '+', s)\<close> renders as \<^verbatim>\<open>div + \<close> followed by
  nothing. And when the builder itself holds a fragment (after \<^verbatim>\<open>builder.class('x')\<close>),
  the new object inherits it: the combination of \<^verbatim>\<open>div.x\<close> and \<^verbatim>\<open>span.x\<close> renders as
  \<^verbatim>\<open>.xdiv.x + span.x\<close>.
\<close>

theorem combine_counterexample:
  "snd (stringify (made [Element ''div'']) (Suc 0)) = ''div'' \<and>
   snd (rendered (combine (made [Element ''div'']) (Suc 0) ''+'' (Suc 0))) = Inr ''div + '' \<and>
   snd (rendered (combine (made [Element ''div'']) (Suc 0) ''+'' (Suc 0))) \<noteq>
     Inr (snd (stringify (made [Element ''div'']) (Suc 0)) @ '' '' @ ''+'' @ '' '' @
          snd (stringify (made [Element ''div'']) (Suc 0))) \<and>
   snd (stringify (run (run (made [Class ''x'']) [Element ''div'']) [Element ''span''])
          (Suc 0)) = ''div.x'' \<and>
   snd (stringify (run (run (made [Class ''x'']) [Element ''div'']) [Element ''span''])
          (Suc (Suc 0))) = ''span.x'' \<and>
   snd (rendered (combine (run (run (made [Class ''x'']) [Element ''div'']) [Element ''span''])
          (Suc 0) ''+'' (Suc (Suc 0)))) = Inr ''.xdiv.x + span.x'' \<and>
   snd (rendered (combine (run (run (made [Class ''x'']) [Element ''div'']) [Element ''span''])
          (Suc 0) ''+'' (Suc (Suc 0)))) \<noteq>
     Inr (snd (stringify (run (run (made [Class ''x'']) [Element ''div'']) [Element ''span''])
                (Suc 0)) @ '' '' @ ''+'' @ '' '' @
          snd (stringify (run (run (made [Class ''x'']) [Element ''div'']) [Element ''span''])
                (Suc (Suc 0))))"
  by (simp add: method_defs store_defs)

subsection \<open>Combining and rendering do not throw\<close>

text \<open>
  Claim C6: in every store, for all selectors and every combinator, \<^verbatim>\<open>combine\<close> returns
  an object (it has no outcome that is an error), and \<^verbatim>\<open>stringify\<close> returns a string.
  The source of \<^verbatim>\<open>stringify\<close> has no \<^verbatim>\<open>throw\<close> and calls \<^verbatim>\<open>join\<close> only on a property
  it has found truthy, so its model has no error outcome at all.
\<close>

theorem combine_stringify_never_raise:
  "(\<exists>h' ob. combine h selector1 combinator selector2 = (h', Inr ob)) \<and>
   (\<exists>h' str. stringify h this = (h', str))"
  by (simp add: combine_def Let_def split: prod.splits)

subsection \<open>Combining resets the two children\<close>

text \<open>
  Claim C7: when \<^verbatim>\<open>combine(selector1, combinator, selector2)\<close> has returned, every
  fragment property of \<^verbatim>\<open>selector1\<close> and of \<^verbatim>\<open>selector2\<close> reads \<^verbatim>\<open>undefined\<close>, and
  \<^verbatim>\<open>stringify\<close> of either of them returns the empty string. The two selectors are
  objects of the store: the builder or objects created before the call.
\<close>

theorem combine_resets_children:
  assumes "selector1 \<le> created h" and "selector2 \<le> created h"
  shows "cleared (fst (combine h selector1 combinator selector2)) selector1 \<and>
         cleared (fst (combine h selector1 combinator selector2)) selector2 \<and>
         snd (stringify (fst (combine h selector1 combinator selector2)) selector1) = [] \<and>
         snd (stringify (fst (combine h selector1 combinator selector2)) selector2) = []"
proof -
  let ?h' = "fst (combine h selector1 combinator selector2)"
  have 1: "\<exists>s. objs ?h' selector1 = reset s"
    using assms by (auto simp add: fst_combine alloc_def)
  have 2: "\<exists>s. objs ?h' selector2 = reset s"
    using assms by (auto simp add: fst_combine alloc_def)
  from 1 2 have "cleared ?h' selector1" "cleared ?h' selector2"
    by (auto intro: own_reset_cleared)
  then show ?thesis by (simp add: stringify_cleared)
qed

theorem combine_resets_children_witness:
  "Suc 0 \<le> created (run (made [Element ''div'']) [Element ''span'']) \<and>
   Suc (Suc 0) \<le> created (run (made [Element ''div'']) [Element ''span'']) \<and>
   snd (stringify (run (made [Element ''div'']) [Element ''span'']) (Suc 0)) = ''div'' \<and>
   snd (stringify (run (made [Element ''div'']) [Element ''span'']) (Suc (Suc 0))) = ''span'' \<and>
   snd (stringify (fst (combine (run (made [Element ''div'']) [Element ''span''])
          (Suc 0) ''+'' (Suc (Suc 0)))) (Suc 0)) = [] \<and>
   snd (stringify (fst (combine (run (made [Element ''div'']) [Element ''span''])
          (Suc 0) ''+'' (Suc (Suc 0)))) (Suc (Suc 0))) = []"
  using combine_resets_children
    [of "Suc 0" "run (made [Element ''div'']) [Element ''span'']" "Suc (Suc 0)" "''+''"]
  by (simp add: method_defs store_defs)

subsection \<open>A pseudo-class after a pseudo-element\<close>

text \<open>
  Claim C8: on every selector whose \<^verbatim>\<open>pseudoElem\<close> is set (reads truthy),
  \<^verbatim>\<open>pseudoClass\<close> throws the order error, and in the store it leaves behind the
  selector's \<^verbatim>\<open>pseudoElem\<close> reads \<^verbatim>\<open>undefined\<close>: the pseudo-element is gone.
\<close>

theorem pseudoClass_after_pseudoElement:
  "truthy_str (get pseudoElem h this) \<Longrightarrow>
     snd (pseudoClass h this v) = Inl OrderViolation \<and>
     get pseudoElem (fst (pseudoClass h this v)) this = None"
  by (simp add: pseudoClass_def get_def)

theorem pseudoClass_after_pseudoElement_witness:
  "truthy_str (get pseudoElem (made [Element ''a'', PseudoElement ''after'']) (Suc 0)) \<and>
   snd (pseudoClass (made [Element ''a'', PseudoElement ''after'']) (Suc 0) ''hover'') =
     Inl OrderViolation \<and>
   get pseudoElem
     (fst (pseudoClass (made [Element ''a'', PseudoElement ''after'']) (Suc 0) ''hover''))
     (Suc 0) = None \<and>
   snd (stringify
     (fst (pseudoClass (made [Element ''a'', PseudoElement ''after'']) (Suc 0) ''hover''))
     (Suc 0)) = ''a''"
  using pseudoClass_after_pseudoElement
    [of "made [Element ''a'', PseudoElement ''after'']" "Suc 0" "''hover''"]
  by (simp add: method_defs store_defs)

subsection \<open>The pseudo-element has no order check\<close>

text \<open>
  Claim C9: \<^verbatim>\<open>pseudoElement\<close> checks nothing but the duplicate. On every selector whose
  \<^verbatim>\<open>pseudoElem\<close> is not set (does not read truthy), whatever other fragments it has,
  \<^verbatim>\<open>pseudoElement(v)\<close> returns the same object with \<^verbatim>\<open>pseudoElem\<close> set to
  \<^verbatim>\<open>::v\<close>; in no state does it throw the order error; and when it throws, the error is
  the duplicate error and \<^verbatim>\<open>pseudoElem\<close> was set.
\<close>

theorem pseudoElement_no_order_check:
  "(\<not> truthy_str (get pseudoElem h this) \<longrightarrow>
      pseudoElement h this v =
        (upd h this (\<lambda>s. s\<lparr>pseudoElem := Val (''::'' @ v)\<rparr>), Inr this)) \<and>
   snd (pseudoElement h this v) \<noteq> Inl OrderViolation \<and>
   (\<forall>e. snd (pseudoElement h this v) = Inl e \<longrightarrow>
      e = DuplicateFragment \<and> truthy_str (get pseudoElem h this))"
  by (simp add: pseudoElement_def)

theorem pseudoElement_no_order_check_witness:
  "\<not> truthy_str (get pseudoElem init_heap builder) \<and>
   snd (pseudoElement init_heap builder ''after'') = Inr builder \<and>
   get pseudoElem (fst (pseudoElement init_heap builder ''after'')) builder = Some ''::after'' \<and>
   truthy_str (get pseudoElem (fst (pseudoElement init_heap builder ''after'')) builder) \<and>
   snd (pseudoElement (fst (pseudoElement init_heap builder ''after'')) builder ''before'')
     = Inl DuplicateFragment"
  using pseudoElement_no_order_check [of init_heap builder "''after''"]
    pseudoElement_no_order_check
      [of "fst (pseudoElement init_heap builder ''after'')" builder "''before''"]
  by (simp add: pseudoElement_def store_defs)

subsection \<open>The empty string is no fragment\<close>

text \<open>
  Claim C10: presence is truthiness, so the empty string does not count. When
  \<^verbatim>\<open>element('')\<close> has returned an object, its \<^verbatim>\<open>tag\<close> holds the empty string; a
  following \<^verbatim>\<open>element(v)\<close> on that object never throws the duplicate error, and it
  returns a new object unless the builder itself holds an id (which the object inherits
  and the order check finds); and \<^verbatim>\<open>stringify\<close> returns what it would return were the
  \<^verbatim>\<open>tag\<close> undefined. Likewise for \<^verbatim>\<open>id('')\<close>: \<^verbatim>\<open>myId\<close> holds the empty string, a
  following \<^verbatim>\<open>id(v)\<close> never throws the duplicate error and returns an object when the
  builder itself holds no fragment, and \<^verbatim>\<open>stringify\<close> returns what it would return were
  \<^verbatim>\<open>myId\<close> undefined (no \<^verbatim>\<open>#\<close>).
\<close>

theorem empty_string_is_unset:
  "(element h this [] = (h1, Inr ob) \<longrightarrow>
      get tag h1 ob = Some [] \<and>
      snd (element h1 ob v) \<noteq> Inl DuplicateFragment \<and>
      (\<not> truthy_str (get myId h builder) \<longrightarrow> snd (element h1 ob v) = Inr (Suc (created h1))) \<and>
      snd (stringify h1 ob) = snd (stringify (upd h1 ob (\<lambda>s. s\<lparr>tag := Undef\<rparr>)) ob)) \<and>
   (id_m h this [] = (h1, Inr ob) \<longrightarrow>
      get myId h1 ob = Some [] \<and>
      snd (id_m h1 ob v) \<noteq> Inl DuplicateFragment \<and>
      (cleared h builder \<longrightarrow> (\<exists>ob2. snd (id_m h1 ob v) = Inr ob2)) \<and>
      snd (stringify h1 ob) = snd (stringify (upd h1 ob (\<lambda>s. s\<lparr>myId := Undef\<rparr>)) ob))"
proof (intro conjI impI)
  assume a: "element h this [] = (h1, Inr ob)"
  note r = element_result[OF a]
  show "get tag h1 ob = Some []" by (rule r)
  then show "snd (stringify h1 ob) = snd (stringify (upd h1 ob (\<lambda>s. s\<lparr>tag := Undef\<rparr>)) ob)"
    by (rule stringify_tag_empty)
  from r show "snd (element h1 ob v) \<noteq> Inl DuplicateFragment"
    by (simp add: element_def case_prod_beta Let_def)
  assume "\<not> truthy_str (get myId h builder)"
  with r show "snd (element h1 ob v) = Inr (Suc (created h1))"
    by (simp add: element_def case_prod_beta Let_def get_simps)
next
  assume a: "id_m h this [] = (h1, Inr ob)"
  note r = id_m_result[OF a]
  show "get myId h1 ob = Some []" by (rule r)
  then show "snd (stringify h1 ob) = snd (stringify (upd h1 ob (\<lambda>s. s\<lparr>myId := Undef\<rparr>)) ob)"
    by (rule stringify_myId_empty)
  from r show "snd (id_m h1 ob v) \<noteq> Inl DuplicateFragment"
    by (simp add: id_m_def case_prod_beta Let_def)
  assume "cleared h builder"
  from id_m_again[OF a this] r show "\<exists>ob2. snd (id_m h1 ob v) = Inr ob2"
    by (simp add: id_m_def case_prod_beta Let_def)
qed

theorem empty_string_is_unset_witness:
  "element init_heap builder [] = (fst (element init_heap builder []), Inr (Suc 0)) \<and>
   \<not> truthy_str (get myId init_heap builder) \<and>
   snd (element (fst (element init_heap builder [])) (Suc 0) ''div'') = Inr (Suc (Suc 0)) \<and>
   snd (stringify (fst (element init_heap builder [])) (Suc 0)) = [] \<and>
   id_m init_heap builder [] = (fst (id_m init_heap builder []), Inr (Suc 0)) \<and>
   cleared init_heap builder \<and>
   snd (id_m (fst (id_m init_heap builder [])) (Suc 0) ''main'') = Inr (Suc (Suc 0)) \<and>
   snd (stringify (fst (id_m init_heap builder [])) (Suc 0)) = [] \<and>
   snd (rendered (chain (init_heap, Inr builder) [Element ''div'', Id_m [], Class ''c''])) =
     Inr ''div.c'' \<and>
   snd (rendered (chain (init_heap, Inr builder) [Element [], Element ''div''])) = Inr ''div'' \<and>
   snd (rendered (chain (init_heap, Inr builder) [Id_m [], Id_m ''main''])) = Inr ''#main''"
  using empty_string_is_unset
      [of init_heap builder "fst (element init_heap builder [])" "Suc 0" "''div''"]
    empty_string_is_unset
      [of init_heap builder "fst (id_m init_heap builder [])" "Suc 0" "''main''"]
  by (simp add: cleared_def method_defs store_defs)

end
